theory Spec2Isabelle
  imports Main "HOL-Library.Sublist"
begin

section \<open>Strings and paths\<close>

text \<open>
  The program under study is \<^verbatim>\<open>sync_folders.py\<close>: a class \<^verbatim>\<open>FileSync\<close> whose method
  \<^verbatim>\<open>sync_files\<close> walks a source and a replica directory, and then deletes, creates and
  re-copies items of the replica.  Its paths are Python strings; here they are
  \<^typ>\<open>string\<close>s.  The backslash cannot be written inside an Isabelle string literal, so it
  gets a name.
\<close>

definition bslash :: char where
  "bslash = CHR 0x5C"

definition slash :: char where
  "slash = CHR 0x2F"

text \<open>
  Python's \<^verbatim>\<open>str.replace(old, new)\<close>: every non-overlapping occurrence of \<^verbatim>\<open>old\<close>, found
  from the left, is replaced by \<^verbatim>\<open>new\<close>.  With an empty \<^verbatim>\<open>old\<close> Python puts \<^verbatim>\<open>new\<close>
  before every character and at the end.
\<close>

function replace_from :: "string \<Rightarrow> string \<Rightarrow> string \<Rightarrow> string" where
  "replace_from old new [] = []"
| "replace_from old new (c # cs) =
     (if old \<noteq> [] \<and> prefix old (c # cs)
      then new @ replace_from old new (drop (length old) (c # cs))
      else c # replace_from old new cs)"
  by pat_completeness auto
termination
  by (relation "measure (\<lambda>(old, new, s). length s)") auto

definition str_replace :: "string \<Rightarrow> string \<Rightarrow> string \<Rightarrow> string" where
  "str_replace old new s =
     (if old = [] then new @ concat (map (\<lambda>c. c # new) s) else replace_from old new s)"

text \<open>
  The two path flavours of Python's \<^verbatim>\<open>os.path\<close>: \<^verbatim>\<open>ntpath\<close> (separator backslash, with the
  slash accepted as well) and \<^verbatim>\<open>posixpath\<close> (separator slash).  Drive letters, UNC prefixes
  and the case-insensitive comparison of \<^verbatim>\<open>ntpath\<close> are left out: the model has one volume,
  and names are compared exactly.
\<close>

datatype platform = Windows | Posix

fun sep :: "platform \<Rightarrow> char" where
  "sep Windows = bslash"
| "sep Posix = slash"

fun is_sep :: "platform \<Rightarrow> char \<Rightarrow> bool" where
  "is_sep Windows c = (c = bslash \<or> c = slash)"
| "is_sep Posix c = (c = slash)"

text \<open>Splitting a path string at its separators; empty pieces are kept, as \<^verbatim>\<open>str.split\<close> does.\<close>

fun components :: "platform \<Rightarrow> string \<Rightarrow> string list" where
  "components plat [] = [[]]"
| "components plat (c # cs) =
     (if is_sep plat c then [] # components plat cs
      else (case components plat cs of
              [] \<Rightarrow> [[c]]
            | x # xs \<Rightarrow> (c # x) # xs))"

definition isabs :: "platform \<Rightarrow> string \<Rightarrow> bool" where
  "isabs plat s = (case s of [] \<Rightarrow> False | c # cs \<Rightarrow> is_sep plat c)"

text \<open>
  \<^verbatim>\<open>os.path.normpath\<close> on a list of components, as a stack: empty components and \<^verbatim>\<open>.\<close> are
  dropped, \<^verbatim>\<open>..\<close> removes the last name (and is dropped at the root).
\<close>

fun norm_comps :: "string list \<Rightarrow> string list \<Rightarrow> string list" where
  "norm_comps acc [] = acc"
| "norm_comps acc (c # cs) =
     (if c = [] \<or> c = ''.'' then norm_comps acc cs
      else if c = ''..'' then norm_comps (butlast acc) cs
      else norm_comps (acc @ [c]) cs)"

text \<open>
  \<^verbatim>\<open>os.path.abspath\<close>: the names from the root of the volume down to the path, for a
  process whose working directory is \<open>cwd\<close>.  The operating system resolves a path string
  of a system call the same way.
\<close>

definition abspath :: "platform \<Rightarrow> string list \<Rightarrow> string \<Rightarrow> string list" where
  "abspath plat cwd s =
     norm_comps [] ((if isabs plat s then [] else cwd) @ components plat s)"

text \<open>\<^verbatim>\<open>os.path.join\<close> of two pieces, and of a list of names.\<close>

definition path_join :: "platform \<Rightarrow> string \<Rightarrow> string \<Rightarrow> string" where
  "path_join plat a b =
     (if isabs plat b then b
      else if a = [] \<or> is_sep plat (last a) then a @ b
      else a @ [sep plat] @ b)"

fun join_all :: "platform \<Rightarrow> string list \<Rightarrow> string" where
  "join_all plat [] = []"
| "join_all plat (x # xs) = foldl (path_join plat) x xs"

text \<open>
  \<^verbatim>\<open>os.path.relpath(path)\<close> with its default start, the working directory: the common
  leading names are dropped, one \<^verbatim>\<open>..\<close> is written for every remaining name of the working
  directory, and \<^verbatim>\<open>.\<close> is returned for the working directory itself.
\<close>

definition relpath_from :: "platform \<Rightarrow> string list \<Rightarrow> string list \<Rightarrow> string" where
  "relpath_from plat start_list path_list =
     (let i = length (longest_common_prefix start_list path_list);
          rel_list = replicate (length start_list - i) ''..'' @ drop i path_list
      in if rel_list = [] then ''.'' else join_all plat rel_list)"

definition relpath :: "platform \<Rightarrow> string list \<Rightarrow> string \<Rightarrow> string" where
  "relpath plat cwd path = relpath_from plat cwd (abspath plat cwd path)"

text \<open>\<^verbatim>\<open>os.path.basename\<close>: what follows the last separator.\<close>

definition basename :: "platform \<Rightarrow> string \<Rightarrow> string" where
  "basename plat s = last (components plat s)"

section \<open>The file system\<close>

text \<open>
  A directory tree: a regular file has a modification time and a content, a directory has
  named entries, in the order in which the system lists them (new entries go to the end).
  Symbolic links, permissions and the timestamps of directories are not modelled.
\<close>

datatype node =
    File (mtime: int) (content: string)
  | Dir (entries: "(string \<times> node) list")

datatype error =
    FileNotFoundError
  | FileExistsError
  | NotADirectoryError
  | PermissionError
  | SameFileError
  | DirectoryTimeNotModelled

fun lookup :: "node \<Rightarrow> string list \<Rightarrow> node option" where
  "lookup n [] = Some n"
| "lookup (File t c) (x # xs) = None"
| "lookup (Dir es) (x # xs) =
     (case map_of es x of None \<Rightarrow> None | Some n \<Rightarrow> lookup n xs)"

definition is_dir :: "node \<Rightarrow> string list \<Rightarrow> bool" where
  "is_dir root p = (case lookup root p of Some (Dir es) \<Rightarrow> True | _ \<Rightarrow> False)"

text \<open>\<open>update_entries p f root\<close> rewrites the entry list of the directory at \<open>p\<close> with \<open>f\<close>.\<close>

fun update_entries ::
  "string list \<Rightarrow> ((string \<times> node) list \<Rightarrow> (string \<times> node) list) \<Rightarrow> node \<Rightarrow> node" where
  "update_entries p f (File t c) = File t c"
| "update_entries [] f (Dir es) = Dir (f es)"
| "update_entries (x # xs) f (Dir es) =
     Dir (map (\<lambda>e. if fst e = x then (fst e, update_entries xs f (snd e)) else e) es)"

definition fs_delete :: "string list \<Rightarrow> node \<Rightarrow> node" where
  "fs_delete p root = update_entries (butlast p) (filter (\<lambda>e. fst e \<noteq> last p)) root"

definition put_entry :: "string \<Rightarrow> node \<Rightarrow> (string \<times> node) list \<Rightarrow> (string \<times> node) list" where
  "put_entry x new es =
     (if x \<in> fst ` set es then map (\<lambda>e. if fst e = x then (x, new) else e) es
      else es @ [(x, new)])"

definition fs_put :: "string list \<Rightarrow> node \<Rightarrow> node \<Rightarrow> node" where
  "fs_put p new root = update_entries (butlast p) (put_entry (last p) new) root"

text \<open>
  \<^verbatim>\<open>os.walk(top)\<close>, top-down: one triple (directory path, names of the sub-directories,
  names of the files) for the directory, then the walk of each sub-directory under the
  path \<^verbatim>\<open>os.path.join(top, name)\<close>.
\<close>

definition dirnames :: "(string \<times> node) list \<Rightarrow> string list" where
  "dirnames es = map fst (filter (\<lambda>e. case snd e of Dir x \<Rightarrow> True | File t c \<Rightarrow> False) es)"

definition filenames :: "(string \<times> node) list \<Rightarrow> string list" where
  "filenames es = map fst (filter (\<lambda>e. case snd e of Dir x \<Rightarrow> False | File t c \<Rightarrow> True) es)"

fun walk :: "platform \<Rightarrow> string \<Rightarrow> node \<Rightarrow> (string \<times> string list \<times> string list) list"
  and walk_entries ::
    "platform \<Rightarrow> string \<Rightarrow> (string \<times> node) list \<Rightarrow> (string \<times> string list \<times> string list) list"
  where
  "walk plat dirpath (File t c) = []"
| "walk plat dirpath (Dir es) =
     (dirpath, dirnames es, filenames es) # walk_entries plat dirpath es"
| "walk_entries plat dirpath [] = []"
| "walk_entries plat dirpath (e # es) =
     walk plat (path_join plat dirpath (fst e)) (snd e) @ walk_entries plat dirpath es"

section \<open>The process and its system calls\<close>

text \<open>
  What a running \<^verbatim>\<open>FileSync\<close> process sees: its platform and working directory (neither
  changes), the file system and the lines of the log file.  The log file is taken to lie
  outside both trees, so its lines are kept apart from \<open>fs\<close>; the time stamp that starts
  every line is left out.

  \<open>calls\<close> is bookkeeping of the model, not a field of the program: the reconciliation
  actions in the order in which the program issued their system calls, whether the call
  succeeded or raised.  No operation reads it.
\<close>

datatype kind = CreateDir | CreateFile | DeleteDir | DeleteFile | ModifyFile

datatype action = Action (kind: kind) (source_path: string) (replica_path: string)

datatype log_line = PathLine string string string | PlainLine string

record state =
  platform :: platform
  cwd :: "string list"
  fs :: node
  log_lines :: "log_line list"
  calls :: "action list"

definition resolve :: "state \<Rightarrow> string \<Rightarrow> string list" where
  "resolve st path = abspath (platform st) (cwd st) path"

text \<open>
  \<^verbatim>\<open>os.walk\<close> is called without \<^verbatim>\<open>onerror\<close>: when the directory cannot be listed (it does
  not exist, it is a file, the path is empty) the error of \<^verbatim>\<open>scandir\<close> is dropped and the
  walk yields nothing.
\<close>

definition os_walk :: "state \<Rightarrow> string \<Rightarrow> (string \<times> string list \<times> string list) list" where
  "os_walk st path =
     (if path = [] then []
      else (case lookup (fs st) (resolve st path) of
              Some (Dir es) \<Rightarrow> walk (platform st) path (Dir es)
            | Some (File t c) \<Rightarrow> []
            | None \<Rightarrow> []))"

text \<open>\<^verbatim>\<open>os.remove\<close>: removes a file; a directory is refused.\<close>

definition os_remove :: "string \<Rightarrow> state \<Rightarrow> error + state" where
  "os_remove path st =
     (let p = resolve st path
      in case lookup (fs st) p of
           None \<Rightarrow> Inl FileNotFoundError
         | Some (Dir es) \<Rightarrow> Inl PermissionError
         | Some (File t c) \<Rightarrow> Inr (st\<lparr>fs := fs_delete p (fs st)\<rparr>))"

text \<open>
  \<^verbatim>\<open>shutil.rmtree\<close>: removes a directory with everything below it.  The root of the volume
  cannot be removed; that its content is removed before the error is not modelled.
\<close>

definition shutil_rmtree :: "string \<Rightarrow> state \<Rightarrow> error + state" where
  "shutil_rmtree path st =
     (let p = resolve st path
      in case lookup (fs st) p of
           None \<Rightarrow> Inl FileNotFoundError
         | Some (File t c) \<Rightarrow> Inl NotADirectoryError
         | Some (Dir es) \<Rightarrow>
             (if p = [] then Inl PermissionError
              else Inr (st\<lparr>fs := fs_delete p (fs st)\<rparr>)))"

text \<open>
  \<^verbatim>\<open>os.mkdir\<close> and \<^verbatim>\<open>os.makedirs(name)\<close> with \<^verbatim>\<open>exist_ok=False\<close>, its default: the parent is
  made first when it does not exist, then the directory itself; \<^verbatim>\<open>mkdir\<close> raises when the
  name is taken.
\<close>

definition mkdir_at :: "node \<Rightarrow> string list \<Rightarrow> error + node" where
  "mkdir_at root p =
     (if lookup root p \<noteq> None then Inl FileExistsError
      else if is_dir root (butlast p) then Inr (fs_put p (Dir []) root)
      else Inl FileNotFoundError)"

function makedirs_at :: "node \<Rightarrow> string list \<Rightarrow> error + node" where
  "makedirs_at root p =
     (if p \<noteq> [] \<and> lookup root (butlast p) = None
      then (case makedirs_at root (butlast p) of
              Inl e \<Rightarrow> (if e = FileExistsError then mkdir_at root p else Inl e)
            | Inr root' \<Rightarrow> mkdir_at root' p)
      else mkdir_at root p)"
  by pat_completeness auto
termination
  by (relation "measure (\<lambda>(root, p). length p)") auto

declare makedirs_at.simps [simp del]

definition os_makedirs :: "string \<Rightarrow> state \<Rightarrow> error + state" where
  "os_makedirs name st =
     (case makedirs_at (fs st) (resolve st name) of
        Inl e \<Rightarrow> Inl e
      | Inr root' \<Rightarrow> Inr (st\<lparr>fs := root'\<rparr>))"

text \<open>
  \<^verbatim>\<open>shutil.copy2(src, dst)\<close>: a destination that is a directory stands for the file of the
  same base name inside it; the content is copied and then the metadata, so the copy has
  the modification time of the original.
\<close>

definition shutil_copy2 :: "string \<Rightarrow> string \<Rightarrow> state \<Rightarrow> error + state" where
  "shutil_copy2 src dst st =
     (let dst' = (if is_dir (fs st) (resolve st dst)
                  then path_join (platform st) dst (basename (platform st) src)
                  else dst);
          s = resolve st src;
          d = resolve st dst'
      in if lookup (fs st) s \<noteq> None \<and> s = d then Inl SameFileError
         else (case lookup (fs st) s of
                 None \<Rightarrow> Inl FileNotFoundError
               | Some (Dir es) \<Rightarrow> Inl PermissionError
               | Some (File t c) \<Rightarrow>
                   (if is_dir (fs st) d then Inl PermissionError
                    else if d \<noteq> [] \<and> is_dir (fs st) (butlast d)
                    then Inr (st\<lparr>fs := fs_put d (File t c) (fs st)\<rparr>)
                    else Inl FileNotFoundError)))"

section \<open>The class \<^verbatim>\<open>FileSync\<close>\<close>

record filesync =
  src_path :: string
  rep_path :: string
  sync_time :: nat
  log_path :: string

text \<open>The four lists that \<^verbatim>\<open>sync_files\<close> stores on the object at the start of every call.\<close>

record listing =
  src_folders :: "string list"
  rep_folders :: "string list"
  src_files :: "string list"
  rep_files :: "string list"

text \<open>An exception leaves the method with the state reached so far.\<close>

type_synonym result = "(error \<times> state) + state"

definition log_action :: "string \<Rightarrow> string \<Rightarrow> string \<Rightarrow> state \<Rightarrow> state" where
  "log_action act src rep st =
     st\<lparr>log_lines := log_lines st @
          [if src \<noteq> [] \<and> rep \<noteq> [] then PathLine act src rep else PlainLine act]\<rparr>"

definition issue :: "kind \<Rightarrow> string \<Rightarrow> string \<Rightarrow> state \<Rightarrow> state" where
  "issue k src rep st = st\<lparr>calls := calls st @ [Action k src rep]\<rparr>"

text \<open>\<^verbatim>\<open>_get_file_time\<close>; the model has the modification times of regular files only.\<close>

definition get_file_time :: "string \<Rightarrow> state \<Rightarrow> error + int" where
  "get_file_time path st =
     (case lookup (fs st) (resolve st path) of
        None \<Rightarrow> Inl FileNotFoundError
      | Some (File t c) \<Rightarrow> Inr t
      | Some (Dir es) \<Rightarrow> Inl DirectoryTimeNotModelled)"

text \<open>
  The two loops over \<^verbatim>\<open>os.walk\<close> at the start of \<^verbatim>\<open>sync_files\<close>.  A file path is the
  directory path, a backslash and the file name, whatever the platform.
\<close>

fun scan_source ::
  "platform \<Rightarrow> string list \<Rightarrow> (string \<times> string list \<times> string list) list \<Rightarrow>
   string list \<times> string list \<Rightarrow> string list \<times> string list" where
  "scan_source plat wd [] (folders, files) = (folders, files)"
| "scan_source plat wd ((dirpath, ds, fnames) # rest) (folders, files) =
     scan_source plat wd rest
       (folders @ [relpath plat wd dirpath],
        if fnames \<noteq> []
        then files @ map (\<lambda>file_name. relpath plat wd (dirpath @ [bslash] @ file_name)) fnames
        else files)"

fun scan_replica ::
  "platform \<Rightarrow> string list \<Rightarrow> (string \<times> string list \<times> string list) list \<Rightarrow>
   string list \<times> string list \<Rightarrow> string list \<times> string list" where
  "scan_replica plat wd [] (folders, files) = (folders, files)"
| "scan_replica plat wd ((dirpath, ds, fnames) # rest) (folders, files) =
     scan_replica plat wd rest
       (folders @ [str_replace ''replica'' ''source'' (relpath plat wd dirpath)],
        if fnames \<noteq> []
        then files @ map (\<lambda>file_name. str_replace ''replica'' ''source''
                             (relpath plat wd (dirpath @ [bslash] @ file_name))) fnames
        else files)"

definition enumerate_trees :: "filesync \<Rightarrow> state \<Rightarrow> listing" where
  "enumerate_trees self st =
     (let (sfolders, sfiles) =
            scan_source (platform st) (cwd st) (os_walk st (src_path self)) ([], []);
          (rfolders, rfiles) =
            scan_replica (platform st) (cwd st) (os_walk st (rep_path self)) ([], [])
      in \<lparr>src_folders = sfolders, rep_folders = rfolders,
          src_files = sfiles, rep_files = rfiles\<rparr>)"

text \<open>\<^verbatim>\<open>_check_item_deletion\<close>: the loop over the folders, then the loop over the files.\<close>

fun delete_folders :: "string list \<Rightarrow> string list \<Rightarrow> state \<Rightarrow> result" where
  "delete_folders sfolders [] st = Inr st"
| "delete_folders sfolders (folder # rest) st =
     (if folder \<notin> set sfolders
      then (let target = str_replace ''source'' ''replica'' folder;
                st1 = issue DeleteDir folder target st
            in case shutil_rmtree target st1 of
                 Inr st2 \<Rightarrow> delete_folders sfolders rest st2
               | Inl e \<Rightarrow>
                   (if e = FileNotFoundError
                    then delete_folders sfolders rest (log_action ''Deleted'' folder target st1)
                    else Inl (e, st1)))
      else delete_folders sfolders rest st)"

fun delete_files :: "string list \<Rightarrow> string list \<Rightarrow> state \<Rightarrow> result" where
  "delete_files sfiles [] st = Inr st"
| "delete_files sfiles (file_path # rest) st =
     (if file_path \<notin> set sfiles
      then (let target = str_replace ''source'' ''replica'' file_path;
                st1 = issue DeleteFile file_path target st
            in case os_remove target st1 of
                 Inr st2 \<Rightarrow> delete_files sfiles rest st2
               | Inl e \<Rightarrow>
                   (if e = FileNotFoundError
                    then delete_files sfiles rest (log_action ''Deleted'' file_path target st1)
                    else Inl (e, st1)))
      else delete_files sfiles rest st)"

definition check_item_deletion :: "listing \<Rightarrow> state \<Rightarrow> result" where
  "check_item_deletion l st =
     (case delete_folders (src_folders l) (rep_folders l) st of
        Inl x \<Rightarrow> Inl x
      | Inr st1 \<Rightarrow> delete_files (src_files l) (rep_files l) st1)"

text \<open>\<^verbatim>\<open>_check_item_creation\<close>: the loop over the folders, then the loop over the files.\<close>

fun create_folders :: "string list \<Rightarrow> string list \<Rightarrow> state \<Rightarrow> result" where
  "create_folders rfolders [] st = Inr st"
| "create_folders rfolders (folder # rest) st =
     (if folder \<notin> set rfolders
      then (let target = str_replace ''source'' ''replica'' folder;
                st1 = issue CreateDir folder target st
            in case os_makedirs target st1 of
                 Inl e \<Rightarrow> Inl (e, st1)
               | Inr st2 \<Rightarrow> create_folders rfolders rest (log_action ''Created'' folder target st2))
      else create_folders rfolders rest st)"

fun create_files :: "string list \<Rightarrow> string list \<Rightarrow> state \<Rightarrow> result" where
  "create_files rfiles [] st = Inr st"
| "create_files rfiles (file_path # rest) st =
     (if file_path \<notin> set rfiles
      then (let target = str_replace ''source'' ''replica'' file_path;
                st1 = issue CreateFile file_path target st
            in case shutil_copy2 file_path target st1 of
                 Inl e \<Rightarrow> Inl (e, st1)
               | Inr st2 \<Rightarrow>
                   create_files rfiles rest (log_action ''Created'' file_path target st2))
      else create_files rfiles rest st)"

definition check_item_creation :: "listing \<Rightarrow> state \<Rightarrow> result" where
  "check_item_creation l st =
     (case create_folders (rep_folders l) (src_folders l) st of
        Inl x \<Rightarrow> Inl x
      | Inr st1 \<Rightarrow> create_files (rep_files l) (src_files l) st1)"

text \<open>\<^verbatim>\<open>_check_item_modification\<close>: the loop over \<^verbatim>\<open>zip(self.src_files, self.rep_files)\<close>.\<close>

fun modify_files :: "(string \<times> string) list \<Rightarrow> state \<Rightarrow> result" where
  "modify_files [] st = Inr st"
| "modify_files ((src_file, rep_file) # rest) st =
     (let target = str_replace ''source'' ''replica'' rep_file
      in case get_file_time src_file st of
           Inl e \<Rightarrow> Inl (e, st)
         | Inr t1 \<Rightarrow>
             (case get_file_time target st of
                Inl e \<Rightarrow> Inl (e, st)
              | Inr t2 \<Rightarrow>
                  (if t1 \<noteq> t2
                   then (let st1 = issue ModifyFile src_file target st
                         in case shutil_copy2 src_file target st1 of
                              Inl e \<Rightarrow> Inl (e, st1)
                            | Inr st2 \<Rightarrow>
                                modify_files rest (log_action ''Modified'' src_file target st2))
                   else modify_files rest st)))"

definition check_item_modification :: "listing \<Rightarrow> state \<Rightarrow> result" where
  "check_item_modification l st = modify_files (zip (src_files l) (rep_files l)) st"

text \<open>\<^verbatim>\<open>sync_files\<close>: enumerate both trees, then delete, create and modify.\<close>

definition sync_files :: "filesync \<Rightarrow> state \<Rightarrow> result" where
  "sync_files self st =
     (let l = enumerate_trees self st
      in case check_item_deletion l st of
           Inl x \<Rightarrow> Inl x
         | Inr st1 \<Rightarrow>
             (case check_item_creation l st1 of
                Inl x \<Rightarrow> Inl x
              | Inr st2 \<Rightarrow> check_item_modification l st2))"

text \<open>
  One round of the loop of \<^verbatim>\<open>sync_scheduler\<close>, without the sleep: the cycle, then the
  completion line.  The scheduler catches nothing, so an exception of the cycle ends it.
\<close>

definition scheduler_round :: "filesync \<Rightarrow> state \<Rightarrow> result" where
  "scheduler_round self st =
     (case sync_files self st of
        Inl x \<Rightarrow> Inl x
      | Inr st1 \<Rightarrow> Inr (log_action ''Successfully synced'' [] [] st1))"

definition final_state :: "result \<Rightarrow> state" where
  "final_state r = (case r of Inl x \<Rightarrow> snd x | Inr st \<Rightarrow> st)"
section \<open>Notions used by the properties\<close>

text \<open>
  The phase of an action within a cycle: the program deletes folders, deletes files,
  creates folders, creates files and at last re-copies modified files.
\<close>

fun rank :: "kind \<Rightarrow> nat" where
  "rank DeleteDir = 0"
| "rank DeleteFile = 1"
| "rank CreateDir = 2"
| "rank CreateFile = 3"
| "rank ModifyFile = 4"

text \<open>
  \<open>issues_within lo hi st r\<close>: the run that started in \<open>st\<close> and ended with \<open>r\<close> issued
  actions of the phases \<open>lo\<close> to \<open>hi\<close> only, in the order of their phases.
\<close>

definition issues_within :: "nat \<Rightarrow> nat \<Rightarrow> state \<Rightarrow> result \<Rightarrow> bool" where
  "issues_within lo hi st r =
     (\<exists>as. calls (final_state r) = calls st @ as \<and> sorted (map (rank \<circ> kind) as) \<and>
           (\<forall>a \<in> set as. lo \<le> rank (kind a) \<and> rank (kind a) \<le> hi))"

section \<open>The order of the actions of a cycle\<close>

lemma calls_issue [simp]: "calls (issue k s r st) = calls st @ [Action k s r]"
  by (simp add: issue_def)

lemma calls_log_action [simp]: "calls (log_action a s r st) = calls st"
  by (simp add: log_action_def)

lemma calls_rmtree: "shutil_rmtree p st = Inr st' \<Longrightarrow> calls st' = calls st"
  by (auto simp: shutil_rmtree_def Let_def split: option.splits node.splits if_splits)

lemma calls_remove: "os_remove p st = Inr st' \<Longrightarrow> calls st' = calls st"
  by (auto simp: os_remove_def Let_def split: option.splits node.splits if_splits)

lemma calls_makedirs: "os_makedirs p st = Inr st' \<Longrightarrow> calls st' = calls st"
  by (auto simp: os_makedirs_def split: sum.splits)

lemma calls_copy2: "shutil_copy2 s d st = Inr st' \<Longrightarrow> calls st' = calls st"
  by (auto simp: shutil_copy2_def Let_def split: option.splits node.splits if_splits)

lemma issues_within_done: "lo \<le> hi \<Longrightarrow> issues_within lo hi st (Inr st)"
  by (simp add: issues_within_def final_state_def)

lemma issues_within_same:
  "calls st1 = calls st \<Longrightarrow> issues_within lo hi st1 r \<Longrightarrow> issues_within lo hi st r"
  by (simp add: issues_within_def)

lemma issues_within_abort:
  "calls st1 = calls st @ [Action k s t] \<Longrightarrow> rank k = n \<Longrightarrow> issues_within n n st (Inl (e, st1))"
  by (simp add: issues_within_def final_state_def)

lemma issues_within_step:
  assumes "calls st1 = calls st @ [Action k s t]" and "rank k = n" and "issues_within n n st1 r"
  shows "issues_within n n st r"
proof -
  from assms(3) obtain as where as: "calls (final_state r) = calls st1 @ as"
    "sorted (map (rank \<circ> kind) as)" "\<forall>a \<in> set as. n \<le> rank (kind a) \<and> rank (kind a) \<le> n"
    by (auto simp: issues_within_def)
  have "calls (final_state r) = calls st @ (Action k s t # as)"
    using as(1) assms(1) by simp
  moreover have "sorted (map (rank \<circ> kind) (Action k s t # as))"
    using as(2,3) assms(2) by auto
  moreover have "\<forall>a \<in> set (Action k s t # as). n \<le> rank (kind a) \<and> rank (kind a) \<le> n"
    using as(3) assms(2) by auto
  ultimately show ?thesis unfolding issues_within_def by blast
qed

lemma issues_within_seq:
  assumes "issues_within lo1 hi1 st r1" and "\<And>st1. r1 = Inr st1 \<Longrightarrow> issues_within lo2 hi2 st1 (g st1)"
    and "hi1 \<le> lo2" and "lo1 \<le> hi1" and "lo2 \<le> hi2"
  shows "issues_within lo1 hi2 st (case r1 of Inl x \<Rightarrow> Inl x | Inr st1 \<Rightarrow> g st1)"
proof (cases r1)
  case (Inl x)
  from assms(1) obtain as where as: "calls (final_state r1) = calls st @ as"
    "sorted (map (rank \<circ> kind) as)" "\<forall>a \<in> set as. lo1 \<le> rank (kind a) \<and> rank (kind a) \<le> hi1"
    by (auto simp: issues_within_def)
  have "\<forall>a \<in> set as. lo1 \<le> rank (kind a) \<and> rank (kind a) \<le> hi2"
    using as(3) assms(3,5) by auto
  with as(1,2) have "issues_within lo1 hi2 st r1"
    unfolding issues_within_def by (intro exI [of _ as] conjI)
  then show ?thesis using Inl by simp
next
  case (Inr st1)
  from assms(1) Inr obtain as where as: "calls st1 = calls st @ as"
    "sorted (map (rank \<circ> kind) as)" "\<forall>a \<in> set as. lo1 \<le> rank (kind a) \<and> rank (kind a) \<le> hi1"
    by (auto simp: issues_within_def final_state_def)
  from assms(2)[OF Inr] obtain bs where bs: "calls (final_state (g st1)) = calls st1 @ bs"
    "sorted (map (rank \<circ> kind) bs)" "\<forall>a \<in> set bs. lo2 \<le> rank (kind a) \<and> rank (kind a) \<le> hi2"
    by (auto simp: issues_within_def)
  have 1: "calls (final_state (g st1)) = calls st @ (as @ bs)"
    using as(1) bs(1) by simp
  have 2: "sorted (map (rank \<circ> kind) (as @ bs))"
    using as(2,3) bs(2,3) assms(3) by (fastforce simp: sorted_append)
  have 3: "\<forall>a \<in> set (as @ bs). lo1 \<le> rank (kind a) \<and> rank (kind a) \<le> hi2"
    using as(3) bs(3) assms(3,4,5) by fastforce
  have "issues_within lo1 hi2 st (g st1)"
    unfolding issues_within_def using 1 2 3 by (intro exI [of _ "as @ bs"] conjI)
  then show ?thesis using Inr by simp
qed



lemma issues_within_item:
  assumes c1: "calls st1 = calls st @ [Action k s t]" and k: "rank k = n"
    and r: "r = Inl (e, st1) \<or> (\<exists>st2. calls st2 = calls st1 \<and> issues_within n n st2 r)"
  shows "issues_within n n st r"
proof -
  have "issues_within n n st1 r"
  proof -
    from r consider "r = Inl (e, st1)" | st2 where "calls st2 = calls st1" "issues_within n n st2 r"
      by blast
    then show ?thesis
    proof cases
      case 1
      then show ?thesis by (simp add: issues_within_def final_state_def)
    next
      case 2
      then show ?thesis by (rule issues_within_same)
    qed
  qed
  with c1 k show ?thesis by (rule issues_within_step)
qed

lemma delete_folders_issues: "issues_within 0 0 st (delete_folders sf rf st)"
proof (induction rf arbitrary: st)
  case Nil
  show ?case by (simp add: issues_within_done)
next
  case (Cons folder rest)
  show ?case
  proof (cases "folder \<in> set sf")
    case True
    then show ?thesis using Cons.IH [of st] by simp
  next
    case False
    define target where "target = str_replace ''source'' ''replica'' folder"
    define st1 where "st1 = issue DeleteDir folder target st"
    define r where "r = delete_folders sf (folder # rest) st"
    have c1: "calls st1 = calls st @ [Action DeleteDir folder target]"
      by (simp add: st1_def)
    have unfold: "r = (case shutil_rmtree target st1 of
                 Inr st2 \<Rightarrow> delete_folders sf rest st2
               | Inl e \<Rightarrow>
                   (if e = FileNotFoundError
                    then delete_folders sf rest (log_action ''Deleted'' folder target st1)
                    else Inl (e, st1)))"
      unfolding r_def target_def st1_def using False by (simp add: Let_def)
    have "\<exists>e. r = Inl (e, st1) \<or> (\<exists>st2. calls st2 = calls st1 \<and> issues_within 0 0 st2 r)"
    proof (cases "shutil_rmtree target st1")
      case (Inr st2)
      then have "r = delete_folders sf rest st2" by (simp add: unfold)
      with calls_rmtree [OF Inr] Cons.IH [of st2] show ?thesis by auto
    next
      case (Inl e)
      show ?thesis
      proof (cases "e = FileNotFoundError")
        case True
        with Inl have "r = delete_folders sf rest (log_action ''Deleted'' folder target st1)"
          by (simp add: unfold)
        with Cons.IH [of "log_action ''Deleted'' folder target st1"] show ?thesis
          using calls_log_action by metis
      next
        case False
        with Inl have "r = Inl (e, st1)" by (simp add: unfold)
        then show ?thesis by blast
      qed
    qed
    then obtain e where d: "r = Inl (e, st1) \<or> (\<exists>st2. calls st2 = calls st1 \<and> issues_within 0 0 st2 r)" ..
    have "issues_within 0 0 st r"
      by (rule issues_within_item [OF c1 _ d]) simp
    then show ?thesis by (simp add: r_def)
  qed
qed


lemma delete_files_issues: "issues_within 1 1 st (delete_files sf rf st)"
proof (induction rf arbitrary: st)
  case Nil
  show ?case by (simp add: issues_within_done)
next
  case (Cons file_path rest)
  show ?case
  proof (cases "file_path \<in> set sf")
    case True
    then show ?thesis using Cons.IH [of st] by simp
  next
    case False
    define target where "target = str_replace ''source'' ''replica'' file_path"
    define st1 where "st1 = issue DeleteFile file_path target st"
    define r where "r = delete_files sf (file_path # rest) st"
    have c1: "calls st1 = calls st @ [Action DeleteFile file_path target]"
      by (simp add: st1_def)
    have unfold: "r = (case os_remove target st1 of
                 Inr st2 \<Rightarrow> delete_files sf rest st2
               | Inl e \<Rightarrow>
                   (if e = FileNotFoundError
                    then delete_files sf rest (log_action ''Deleted'' file_path target st1)
                    else Inl (e, st1)))"
      unfolding r_def target_def st1_def using False by (simp add: Let_def)
    have "\<exists>e. r = Inl (e, st1) \<or> (\<exists>st2. calls st2 = calls st1 \<and> issues_within 1 1 st2 r)"
    proof (cases "os_remove target st1")
      case (Inr st2)
      then have "r = delete_files sf rest st2" by (simp add: unfold)
      with calls_remove [OF Inr] Cons.IH [of st2] show ?thesis by auto
    next
      case (Inl e)
      show ?thesis
      proof (cases "e = FileNotFoundError")
        case True
        with Inl have "r = delete_files sf rest (log_action ''Deleted'' file_path target st1)"
          by (simp add: unfold)
        with Cons.IH [of "log_action ''Deleted'' file_path target st1"] show ?thesis
          using calls_log_action by metis
      next
        case False
        with Inl have "r = Inl (e, st1)" by (simp add: unfold)
        then show ?thesis by blast
      qed
    qed
    then obtain e where d:
      "r = Inl (e, st1) \<or> (\<exists>st2. calls st2 = calls st1 \<and> issues_within 1 1 st2 r)" ..
    have "issues_within 1 1 st r"
      by (rule issues_within_item [OF c1 _ d]) simp
    then show ?thesis by (simp add: r_def)
  qed
qed

lemma create_folders_issues: "issues_within 2 2 st (create_folders rf sf st)"
proof (induction sf arbitrary: st)
  case Nil
  show ?case by (simp add: issues_within_done)
next
  case (Cons folder rest)
  show ?case
  proof (cases "folder \<in> set rf")
    case True
    then show ?thesis using Cons.IH [of st] by simp
  next
    case False
    define target where "target = str_replace ''source'' ''replica'' folder"
    define st1 where "st1 = issue CreateDir folder target st"
    define r where "r = create_folders rf (folder # rest) st"
    have c1: "calls st1 = calls st @ [Action CreateDir folder target]"
      by (simp add: st1_def)
    have unfold: "r = (case os_makedirs target st1 of
                 Inl e \<Rightarrow> Inl (e, st1)
               | Inr st2 \<Rightarrow> create_folders rf rest (log_action ''Created'' folder target st2))"
      unfolding r_def target_def st1_def using False by (simp add: Let_def)
    have "\<exists>e. r = Inl (e, st1) \<or> (\<exists>st2. calls st2 = calls st1 \<and> issues_within 2 2 st2 r)"
    proof (cases "os_makedirs target st1")
      case (Inr st2)
      then have "r = create_folders rf rest (log_action ''Created'' folder target st2)"
        by (simp add: unfold)
      moreover have "calls (log_action ''Created'' folder target st2) = calls st1"
        using calls_makedirs [OF Inr] by simp
      ultimately show ?thesis
        using Cons.IH [of "log_action ''Created'' folder target st2"] by metis
    next
      case (Inl e)
      then have "r = Inl (e, st1)" by (simp add: unfold)
      then show ?thesis by blast
    qed
    then obtain e where d:
      "r = Inl (e, st1) \<or> (\<exists>st2. calls st2 = calls st1 \<and> issues_within 2 2 st2 r)" ..
    have "issues_within 2 2 st r"
      by (rule issues_within_item [OF c1 _ d]) simp
    then show ?thesis by (simp add: r_def)
  qed
qed

lemma create_files_issues: "issues_within 3 3 st (create_files rf sf st)"
proof (induction sf arbitrary: st)
  case Nil
  show ?case by (simp add: issues_within_done)
next
  case (Cons file_path rest)
  show ?case
  proof (cases "file_path \<in> set rf")
    case True
    then show ?thesis using Cons.IH [of st] by simp
  next
    case False
    define target where "target = str_replace ''source'' ''replica'' file_path"
    define st1 where "st1 = issue CreateFile file_path target st"
    define r where "r = create_files rf (file_path # rest) st"
    have c1: "calls st1 = calls st @ [Action CreateFile file_path target]"
      by (simp add: st1_def)
    have unfold: "r = (case shutil_copy2 file_path target st1 of
                 Inl e \<Rightarrow> Inl (e, st1)
               | Inr st2 \<Rightarrow> create_files rf rest (log_action ''Created'' file_path target st2))"
      unfolding r_def target_def st1_def using False by (simp add: Let_def)
    have "\<exists>e. r = Inl (e, st1) \<or> (\<exists>st2. calls st2 = calls st1 \<and> issues_within 3 3 st2 r)"
    proof (cases "shutil_copy2 file_path target st1")
      case (Inr st2)
      then have "r = create_files rf rest (log_action ''Created'' file_path target st2)"
        by (simp add: unfold)
      moreover have "calls (log_action ''Created'' file_path target st2) = calls st1"
        using calls_copy2 [OF Inr] by simp
      ultimately show ?thesis
        using Cons.IH [of "log_action ''Created'' file_path target st2"] by metis
    next
      case (Inl e)
      then have "r = Inl (e, st1)" by (simp add: unfold)
      then show ?thesis by blast
    qed
    then obtain e where d:
      "r = Inl (e, st1) \<or> (\<exists>st2. calls st2 = calls st1 \<and> issues_within 3 3 st2 r)" ..
    have "issues_within 3 3 st r"
      by (rule issues_within_item [OF c1 _ d]) simp
    then show ?thesis by (simp add: r_def)
  qed
qed

lemma issues_within_abort_here: "lo \<le> hi \<Longrightarrow> issues_within lo hi st (Inl (e, st))"
  by (simp add: issues_within_def final_state_def)

lemma modify_files_issues: "issues_within 4 4 st (modify_files ps st)"
proof (induction ps arbitrary: st)
  case Nil
  show ?case by (simp add: issues_within_done)
next
  case (Cons pr rest)
  obtain src_file rep_file where pr: "pr = (src_file, rep_file)" by (cases pr)
  define target where "target = str_replace ''source'' ''replica'' rep_file"
  define st1 where "st1 = issue ModifyFile src_file target st"
  define r where "r = modify_files (pr # rest) st"
  have c1: "calls st1 = calls st @ [Action ModifyFile src_file target]"
    by (simp add: st1_def)
  have unfold: "r = (case get_file_time src_file st of
           Inl e \<Rightarrow> Inl (e, st)
         | Inr t1 \<Rightarrow>
             (case get_file_time target st of
                Inl e \<Rightarrow> Inl (e, st)
              | Inr t2 \<Rightarrow>
                  (if t1 \<noteq> t2
                   then (case shutil_copy2 src_file target st1 of
                              Inl e \<Rightarrow> Inl (e, st1)
                            | Inr st2 \<Rightarrow>
                                modify_files rest (log_action ''Modified'' src_file target st2))
                   else modify_files rest st)))"
    unfolding r_def target_def st1_def pr modify_files.simps Let_def by (rule refl)
  have "issues_within 4 4 st r"
  proof (cases "get_file_time src_file st")
    case (Inl e)
    then show ?thesis by (simp add: unfold issues_within_abort_here)
  next
    case t1: (Inr t1)
    show ?thesis
    proof (cases "get_file_time target st")
      case (Inl e)
      then show ?thesis using t1 by (simp add: unfold issues_within_abort_here)
    next
      case t2: (Inr t2)
      show ?thesis
      proof (cases "t1 = t2")
        case True
        then have "r = modify_files rest st" using t1 t2 by (simp add: unfold)
        then show ?thesis using Cons.IH [of st] by simp
      next
        case False
        have "\<exists>e. r = Inl (e, st1) \<or> (\<exists>st2. calls st2 = calls st1 \<and> issues_within 4 4 st2 r)"
        proof (cases "shutil_copy2 src_file target st1")
          case (Inr st2)
          then have "r = modify_files rest (log_action ''Modified'' src_file target st2)"
            using t1 t2 False by (simp add: unfold)
          moreover have "calls (log_action ''Modified'' src_file target st2) = calls st1"
            using calls_copy2 [OF Inr] by simp
          ultimately show ?thesis
            using Cons.IH [of "log_action ''Modified'' src_file target st2"] by metis
        next
          case (Inl e)
          then have "r = Inl (e, st1)" using t1 t2 False by (simp add: unfold)
          then show ?thesis by blast
        qed
        then obtain e where d:
          "r = Inl (e, st1) \<or> (\<exists>st2. calls st2 = calls st1 \<and> issues_within 4 4 st2 r)" ..
        show ?thesis
          by (rule issues_within_item [OF c1 _ d]) simp
      qed
    qed
  qed
  then show ?case by (simp add: r_def)
qed

lemma check_item_deletion_issues: "issues_within 0 1 st (check_item_deletion l st)"
  unfolding check_item_deletion_def
  by (rule issues_within_seq [OF delete_folders_issues delete_files_issues]) simp_all

lemma check_item_creation_issues: "issues_within 2 3 st (check_item_creation l st)"
  unfolding check_item_creation_def
  by (rule issues_within_seq [OF create_folders_issues create_files_issues]) simp_all

lemma check_item_modification_issues: "issues_within 4 4 st (check_item_modification l st)"
  unfolding check_item_modification_def by (rule modify_files_issues)

lemma create_then_modify_issues:
  "issues_within 2 4 st
     (case check_item_creation l st of Inl x \<Rightarrow> Inl x | Inr st2 \<Rightarrow> check_item_modification l st2)"
  by (rule issues_within_seq [OF check_item_creation_issues check_item_modification_issues])
     simp_all

lemma sync_files_issues: "issues_within 0 4 st (sync_files self st)"
  unfolding sync_files_def Let_def
  by (rule issues_within_seq [OF check_item_deletion_issues create_then_modify_issues]) simp_all

text \<open>
  Claim C9.  Within every cycle the actions are applied in the order: all deletions
  (folders, then files), then all directory creations, then all file creations, then all
  modifications.  Whatever the file system and the working directory, and whether the
  cycle ends normally or with an exception, the actions that \<^verbatim>\<open>sync_files\<close> issues are
  sorted by their phase; in particular no file is created before a directory creation
  of the same cycle.
\<close>

theorem cycle_applies_actions_in_phase_order:
  "\<exists>as. calls (final_state (sync_files self st)) = calls st @ as \<and>
        sorted (map (rank \<circ> kind) as)"
  using sync_files_issues [of st self] unfolding issues_within_def by blast

end
